theory Spec2Isabelle
  imports Main "HOL-Library.Char_ord" "HOL-Library.List_Lexorder" "HOL-Library.Sublist"
begin

section \<open>Shared data model of utils.py\<close>

text \<open>
  Python strings are \<open>string\<close>; \<open>sorted\<close> on strings compares them
  lexicographically, character by character, a proper prefix being smaller, which is the
  order of \<open>List_Lexorder\<close> over \<open>Char_ord\<close>.

  A Python \<open>dict\<close> keeps its keys distinct and in insertion order. It is an association
  list: \<open>d[k] = v\<close> overwrites the value in place where \<open>k\<close> is present and appends the
  pair otherwise, \<open>len(d)\<close> is the number of pairs, \<open>d.items()\<close> is the list itself and
  \<open>d[k]\<close> is \<open>map_of d k\<close>.
\<close>

type_synonym ('k, 'v) dict = "('k \<times> 'v) list"

fun dict_set :: "'k \<Rightarrow> 'v \<Rightarrow> ('k, 'v) dict \<Rightarrow> ('k, 'v) dict" where
  "dict_set k v [] = [(k, v)]"
| "dict_set k v (p # d) = (if fst p = k then (k, v) # d else p # dict_set k v d)"

definition dict_len :: "('k, 'v) dict \<Rightarrow> int" where
  "dict_len d = int (length d)"

definition dict_items :: "('k, 'v) dict \<Rightarrow> ('k \<times> 'v) list" where
  "dict_items d = d"

text \<open>
  An exception that leaves a function is the \<open>Inl\<close> of its result. \<open>LibraryError\<close>
  stands for any exception of an external library that the code neither raises itself nor
  names, tagged with its message.
\<close>

datatype error =
    AssertionError string
  | SyntaxError
  | TokenizeError
  | KeyError string
  | LibraryError string

section \<open>get_code\<close>

text \<open>
  The dataset library is external. What \<open>load_dataset\<close> returns is a dictionary from
  partition names to splits; a split is the list of its records in the dataset's own
  order, and a record maps column names to values. Indexing a split by a column name
  gives the values of that column, record by record, and fails with \<open>KeyError\<close> on a
  column that a record does not have. The call \<open>load_dataset\<close> itself reads the network
  or the cache, so it is a parameter of the model: any function from the dataset name and
  the language to an error or a dictionary of splits.
\<close>

type_synonym dataset_record = "string \<rightharpoonup> string"

type_synonym dataset = "dataset_record list"

type_synonym dataset_dict = "string \<rightharpoonup> dataset"

fun column :: "dataset \<Rightarrow> string \<Rightarrow> error + string list" where
  "column [] name = Inr []"
| "column (r # rs) name =
     (case r name of
        None \<Rightarrow> Inl (KeyError name)
      | Some v \<Rightarrow> (case column rs name of Inl e \<Rightarrow> Inl e | Inr vs \<Rightarrow> Inr (v # vs)))"

definition get_code ::
  "(string \<Rightarrow> string \<Rightarrow> error + dataset_dict) \<Rightarrow> string \<Rightarrow> string \<Rightarrow> error + string list" where
  "get_code load_dataset partition' language =
     (case load_dataset ''code_search_net'' language of
        Inl e \<Rightarrow> Inl e
      | Inr raw_datasets \<Rightarrow>
          (case raw_datasets partition' of
             None \<Rightarrow> Inl (KeyError partition')
           | Some split \<Rightarrow> column split ''whole_func_string''))"

text \<open>A dataset source with one language and one partition of two records, to run the model on.\<close>

definition example_split :: dataset where
  "example_split =
     [[''func_name'' \<mapsto> ''f'', ''whole_func_string'' \<mapsto> ''def f(): pass''],
      [''func_name'' \<mapsto> ''g'', ''whole_func_string'' \<mapsto> ''def g(): return 1'']]"

definition example_load_dataset :: "string \<Rightarrow> string \<Rightarrow> error + dataset_dict" where
  "example_load_dataset name language =
     (if name = ''code_search_net'' \<and> language = ''python''
      then Inr [''train'' \<mapsto> example_split]
      else Inl (LibraryError ''dataset or configuration not found''))"

section \<open>get_token_stream\<close>

text \<open>
  The token categories that \<open>tokenize.tokenize\<close> gives as the \<open>type\<close> of a token
  (keywords are \<open>NAME\<close> tokens, operators and punctuation are \<open>OP\<close> tokens), and the
  named tuple \<open>TokenInfo(type, string, start, end, line)\<close> it yields, positions being
  (row, column) pairs.
\<close>

datatype token_type =
    ENDMARKER | NAME | NUMBER | STRING | NEWLINE | INDENT | DEDENT | OP
  | COMMENT | NL | ERRORTOKEN | ENCODING
  | FSTRING_START | FSTRING_MIDDLE | FSTRING_END

record token_info =
  tok_type :: token_type
  tok_string :: string
  tok_start :: "nat \<times> nat"
  tok_end :: "nat \<times> nat"
  tok_line :: string

definition TokenInfo ::
  "token_type \<Rightarrow> string \<Rightarrow> nat \<times> nat \<Rightarrow> nat \<times> nat \<Rightarrow> string \<Rightarrow> token_info" where
  "TokenInfo ty s st en ln =
     \<lparr>tok_type = ty, tok_string = s, tok_start = st, tok_end = en, tok_line = ln\<rparr>"

definition useless_token_type :: "token_type set" where
  "useless_token_type = {COMMENT, NEWLINE, NL, INDENT, DEDENT, ENCODING, STRING}"

text \<open>
  \<open>ast.parse\<close> and \<open>tokenize.tokenize\<close> belong to the standard library and are
  parameters: the parser gives an error or a tree, the tokenizer, run to its end by the
  list comprehension, an error or the whole token stream of the UTF-8 encoded text. The
  \<open>assert\<close> comes first, then the parse, whose tree is not used, then the tokenizer.
\<close>

definition get_token_stream ::
  "(string \<Rightarrow> error + 'tree) \<Rightarrow> (string \<Rightarrow> error + token_info list) \<Rightarrow>
   string \<Rightarrow> string \<Rightarrow> error + string list" where
  "get_token_stream ast_parse tokenize_tokenize code language =
     (if language \<noteq> ''python'' then Inl (AssertionError ''Only support python for now'')
      else
        case ast_parse code of
          Inl e \<Rightarrow> Inl e
        | Inr parse_tree \<Rightarrow>
            (case tokenize_tokenize code of
               Inl e \<Rightarrow> Inl e
             | Inr origin_tokens \<Rightarrow>
                 Inr [tok_string token. token \<leftarrow> origin_tokens,
                        tok_type token \<notin> useless_token_type]))"

text \<open>Source order of two positions: by row, then by column, as Python compares tuples.\<close>

definition pos_le :: "nat \<times> nat \<Rightarrow> nat \<times> nat \<Rightarrow> bool" where
  "pos_le p q \<longleftrightarrow> fst p < fst q \<or> (fst p = fst q \<and> snd p \<le> snd q)"

text \<open>
  The text of the scenario, a function definition of two lines without a final newline,
  and the token stream that CPython's \<open>tokenize.tokenize\<close> yields for it.
\<close>

definition scenario_code :: string where
  "scenario_code = ''def f(x):'' @ [CHR 0x0A] @ ''    return x''"

definition scenario_tokens :: "token_info list" where
  "scenario_tokens =
     [TokenInfo ENCODING ''utf-8'' (0, 0) (0, 0) [],
      TokenInfo NAME ''def'' (1, 0) (1, 3) (''def f(x):'' @ [CHR 0x0A]),
      TokenInfo NAME ''f'' (1, 4) (1, 5) (''def f(x):'' @ [CHR 0x0A]),
      TokenInfo OP ''('' (1, 5) (1, 6) (''def f(x):'' @ [CHR 0x0A]),
      TokenInfo NAME ''x'' (1, 6) (1, 7) (''def f(x):'' @ [CHR 0x0A]),
      TokenInfo OP '')'' (1, 7) (1, 8) (''def f(x):'' @ [CHR 0x0A]),
      TokenInfo OP '':'' (1, 8) (1, 9) (''def f(x):'' @ [CHR 0x0A]),
      TokenInfo NEWLINE [CHR 0x0A] (1, 9) (1, 10) (''def f(x):'' @ [CHR 0x0A]),
      TokenInfo INDENT ''    '' (2, 0) (2, 4) ''    return x'',
      TokenInfo NAME ''return'' (2, 4) (2, 10) ''    return x'',
      TokenInfo NAME ''x'' (2, 11) (2, 12) ''    return x'',
      TokenInfo NEWLINE [] (2, 12) (2, 13) [],
      TokenInfo DEDENT [] (3, 0) (3, 0) [],
      TokenInfo ENDMARKER [] (3, 0) (3, 0) []]"

text \<open>
  The standard library restricted to the scenario: a parser that accepts the scenario's
  text and rejects the unfinished \<open>def f(:\<close>, and a tokenizer that knows the scenario's
  token stream. They instantiate the two parameters where the model is run.
\<close>

definition scenario_parse :: "string \<Rightarrow> error + unit" where
  "scenario_parse code =
     (if code = scenario_code then Inr ()
      else if code = ''def f(:'' then Inl SyntaxError
      else Inl (LibraryError ''text outside the scenario''))"

definition scenario_tokenize :: "string \<Rightarrow> error + token_info list" where
  "scenario_tokenize code =
     (if code = scenario_code then Inr scenario_tokens else Inl TokenizeError)"

section \<open>create_vocab\<close>

text \<open>
  \<^verbatim>\<open>unique_words = set(sum(tokenized_corpus, start=[]))\<close>:
  \<open>sum\<close> with an empty list as start value appends the documents.
\<close>

definition unique_words :: "string list list \<Rightarrow> string set" where
  "unique_words tokenized_corpus = set (concat tokenized_corpus)"

text \<open>
  \<^verbatim>\<open>for token in sorted(unique_words): token2id[token] = len(token2id)\<close>,
  the dictionary being threaded through the loop.
\<close>

fun assign_ids :: "string list \<Rightarrow> (string, int) dict \<Rightarrow> (string, int) dict" where
  "assign_ids [] token2id = token2id"
| "assign_ids (token # rest) token2id =
     assign_ids rest (dict_set token (dict_len token2id) token2id)"

text \<open>
  \<^verbatim>\<open>id2token = {v: k for k, v in token2id.items()}\<close>: the comprehension
  stores \<open>k\<close> under \<open>v\<close> for each item in turn, starting from the empty dictionary.
\<close>

fun invert_items :: "(string \<times> int) list \<Rightarrow> (int, string) dict \<Rightarrow> (int, string) dict" where
  "invert_items [] id2token = id2token"
| "invert_items ((k, v) # items) id2token = invert_items items (dict_set v k id2token)"

definition create_vocab ::
  "string list list \<Rightarrow> (string, int) dict \<times> (int, string) dict" where
  "create_vocab tokenized_corpus =
     (let token2id = assign_ids (sorted_list_of_set (unique_words tokenized_corpus)) [];
          id2token = invert_items (dict_items token2id) []
      in (token2id, id2token))"

section \<open>Properties of create_vocab\<close>

text \<open>
  A Python set is iterated in no particular order, and \<open>sorted\<close> sorts whatever list
  the iteration gives. The elements of a set being distinct, every such list sorts to the
  same result, which is how \<open>create_vocab\<close> is defined.
\<close>

lemma sorted_any_iteration_order:
  "distinct ws \<Longrightarrow> sort ws = sorted_list_of_set (set ws)"
  by (simp add: sorted_list_of_set_sort_remdups distinct_remdups_id)

lemma dict_set_fresh: "k \<notin> fst ` set d \<Longrightarrow> dict_set k v d = d @ [(k, v)]"
  by (induction d) auto

lemma assign_ids_fresh:
  "distinct ws \<Longrightarrow> set ws \<inter> fst ` set acc = {} \<Longrightarrow>
   assign_ids ws acc = acc @ zip ws (map int [length acc ..< length acc + length ws])"
proof (induction ws arbitrary: acc)
  case Nil
  then show ?case by simp
next
  case (Cons w ws)
  have fresh: "w \<notin> fst ` set acc" using Cons.prems by auto
  have step: "dict_set w (dict_len acc) acc = acc @ [(w, int (length acc))]"
    using fresh by (simp add: dict_set_fresh dict_len_def)
  have disj: "set ws \<inter> fst ` set (acc @ [(w, int (length acc))]) = {}"
    using Cons.prems by auto
  have "assign_ids ws (acc @ [(w, int (length acc))]) =
        (acc @ [(w, int (length acc))]) @
          zip ws (map int [Suc (length acc) ..< Suc (length acc) + length ws])"
    using Cons.IH [OF _ disj] Cons.prems by simp
  moreover have "[length acc ..< length acc + length (w # ws)] =
        length acc # [Suc (length acc) ..< Suc (length acc) + length ws]"
    using upt_conv_Cons [of "length acc" "Suc (length acc) + length ws"]
    by (simp del: upt_Suc)
  ultimately show ?case
    by (simp only: assign_ids.simps step list.map zip_Cons_Cons append_assoc append.simps)
qed

lemma invert_items_fresh:
  "distinct (map snd items) \<Longrightarrow> snd ` set items \<inter> fst ` set acc = {} \<Longrightarrow>
   invert_items items acc = acc @ map (\<lambda>(k, v). (v, k)) items"
proof (induction items arbitrary: acc)
  case Nil
  then show ?case by simp
next
  case (Cons p items)
  obtain k v where p: "p = (k, v)" by (cases p)
  have fresh: "v \<notin> fst ` set acc" using Cons.prems p by auto
  have disj: "snd ` set items \<inter> fst ` set (acc @ [(v, k)]) = {}"
    using Cons.prems p by (auto simp: image_iff)
  show ?case
    using Cons.IH [OF _ disj] Cons.prems p fresh by (simp add: dict_set_fresh)
qed

lemma create_vocab_closed:
  "create_vocab corpus =
     (let ws = sorted_list_of_set (unique_words corpus)
      in (zip ws (map int [0 ..< length ws]), zip (map int [0 ..< length ws]) ws))"
proof -
  define ws where "ws = sorted_list_of_set (unique_words corpus)"
  have d: "distinct ws" by (simp add: ws_def)
  have t: "assign_ids ws [] = zip ws (map int [0 ..< length ws])"
    using assign_ids_fresh [OF d, of "[]"] by simp
  have dv: "distinct (map snd (zip ws (map int [0 ..< length ws])))"
    by (simp add: distinct_map)
  have i: "invert_items (zip ws (map int [0 ..< length ws])) [] =
           map (\<lambda>(k, v). (v, k)) (zip ws (map int [0 ..< length ws]))"
    using invert_items_fresh [OF dv, of "[]"] by simp
  have sw: "map (\<lambda>(k, v). (v, k)) (zip ws (map int [0 ..< length ws])) =
            zip (map int [0 ..< length ws]) ws"
    by (metis length_map length_upt minus_nat.diff_0 zip_commute)
  show ?thesis
    by (simp add: create_vocab_def dict_items_def Let_def ws_def [symmetric] t i sw)
qed

lemma smaller_tokens_prefix:
  fixes ws :: "'a::linorder list"
  assumes "sorted ws" "distinct ws" "i < length ws"
  shows "{s \<in> set ws. s < ws ! i} = set (take i ws)"
proof -
  have st: "sorted_wrt (<) ws"
    using assms(1,2) by (simp add: strict_sorted_iff)
  have lt: "\<And>j k. j < k \<Longrightarrow> k < length ws \<Longrightarrow> ws ! j < ws ! k"
    using st by (simp add: sorted_wrt_iff_nth_less)
  show ?thesis
  proof (rule set_eqI, rule iffI)
    fix s
    assume "s \<in> {s \<in> set ws. s < ws ! i}"
    then obtain j where j: "j < length ws" "s = ws ! j" "ws ! j < ws ! i"
      by (auto simp: in_set_conv_nth)
    have "j < i"
    proof (rule ccontr)
      assume "\<not> j < i"
      then have "i = j \<or> i < j" by arith
      then show False using j lt [of i j] by auto
    qed
    then show "s \<in> set (take i ws)"
      using j assms(3) by (auto simp: in_set_conv_nth)
  next
    fix s
    assume "s \<in> set (take i ws)"
    then obtain j where j: "j < i" "s = ws ! j"
      using assms(3) by (auto simp: in_set_conv_nth)
    then show "s \<in> {s \<in> set ws. s < ws ! i}"
      using lt [of j i] assms(3) by auto
  qed
qed

lemma card_smaller_tokens:
  fixes ws :: "'a::linorder list"
  assumes "sorted ws" "distinct ws" "i < length ws"
  shows "card {s \<in> set ws. s < ws ! i} = i"
proof -
  have "card (set (take i ws)) = length (take i ws)"
    using assms(2) by (intro distinct_card distinct_take)
  then show ?thesis
    using assms by (simp add: smaller_tokens_prefix)
qed

lemma zip_swap_mem: "(y, x) \<in> set (zip ys xs) \<longleftrightarrow> (x, y) \<in> set (zip xs ys)"
  by (auto simp: set_zip)

lemma vocab_lookup_rank:
  fixes U :: "string set"
  assumes "finite U" "t \<in> U"
  defines "ws \<equiv> sorted_list_of_set U"
  shows "map_of (zip ws (map int [0 ..< length ws])) t = Some (int (card {s \<in> U. s < t}))"
proof -
  have sw: "set ws = U" and so: "sorted ws" and di: "distinct ws"
    using assms(1) by (simp_all add: ws_def)
  obtain i where i: "i < length ws" "t = ws ! i"
    using assms(2) sw by (auto simp: in_set_conv_nth)
  have "map_of (zip ws (map int [0 ..< length ws])) (ws ! i) = Some (map int [0 ..< length ws] ! i)"
    using di i(1) by (intro map_of_zip_nth) simp_all
  moreover have "card {s \<in> U. s < ws ! i} = i"
    using card_smaller_tokens [OF so di i(1)] sw by simp
  ultimately show ?thesis
    using i by simp
qed

lemma finite_unique_words: "finite (unique_words corpus)"
  by (simp add: unique_words_def)

lemma vocab_ids_bij:
  fixes ws :: "string list"
  assumes di: "distinct ws"
  shows "bij_betw (\<lambda>t. the (map_of (zip ws (map int [0 ..< length ws])) t))
           (set ws) {0 ..< int (length ws)}"
proof -
  let ?f = "\<lambda>t. the (map_of (zip ws (map int [0 ..< length ws])) t)"
  have nth: "\<And>i. i < length ws \<Longrightarrow> ?f (ws ! i) = int i"
  proof -
    fix i assume i: "i < length ws"
    have "map_of (zip ws (map int [0 ..< length ws])) (ws ! i) =
          Some (map int [0 ..< length ws] ! i)"
      using di i by (intro map_of_zip_nth) simp_all
    then show "?f (ws ! i) = int i" using i by simp
  qed
  have inj: "inj_on ?f (set ws)"
  proof (rule inj_onI)
    fix s t assume "s \<in> set ws" "t \<in> set ws" and eq: "?f s = ?f t"
    then obtain i j where "i < length ws" "s = ws ! i" "j < length ws" "t = ws ! j"
      by (auto simp: in_set_conv_nth)
    then show "s = t" using eq nth by simp
  qed
  have "?f ` set ws = int ` {0 ..< length ws}"
  proof (rule set_eqI, rule iffI)
    fix n assume "n \<in> ?f ` set ws"
    then obtain i where "i < length ws" "n = ?f (ws ! i)"
      by (auto simp: in_set_conv_nth)
    then show "n \<in> int ` {0 ..< length ws}" using nth by simp
  next
    fix n assume "n \<in> int ` {0 ..< length ws}"
    then obtain i where i: "i < length ws" "n = int i" by auto
    then have "n = ?f (ws ! i)" using nth by simp
    then show "n \<in> ?f ` set ws" using i(1) by (metis imageI nth_mem)
  qed
  then have "?f ` set ws = {0 ..< int (length ws)}"
    by (simp add: image_int_atLeastLessThan)
  then show ?thesis
    using inj by (rule bij_betw_imageI [rotated])
qed

text \<open>
  Claim C1. For every corpus, \<open>create_vocab\<close> returns two well-formed dictionaries
  (distinct keys). The keys of \<open>token2id\<close> are exactly the distinct tokens of the
  corpus; the id of a token is the number of distinct tokens that are lexicographically
  smaller, so ids ascend with the token text from 0; \<open>token2id\<close> is a bijection from
  the distinct tokens onto \<open>{0 ..< number of distinct tokens}\<close>; and \<open>id2token\<close> is
  its exact inverse: \<open>id2token[i] = t\<close> iff \<open>token2id[t] = i\<close>, in particular
  \<open>id2token[token2id[t]] = t\<close> for every distinct token \<open>t\<close>.
\<close>

theorem create_vocab_bijection:
  "case create_vocab corpus of (token2id, id2token) \<Rightarrow>
     distinct (map fst token2id) \<and> distinct (map fst id2token)
   \<and> fst ` set token2id = unique_words corpus
   \<and> (\<forall>t \<in> unique_words corpus.
         map_of token2id t = Some (int (card {s \<in> unique_words corpus. s < t})))
   \<and> bij_betw (\<lambda>t. the (map_of token2id t)) (unique_words corpus)
         {0 ..< int (card (unique_words corpus))}
   \<and> (\<forall>t i. map_of id2token i = Some t \<longleftrightarrow> map_of token2id t = Some i)
   \<and> (\<forall>t \<in> unique_words corpus.
         \<exists>i. map_of token2id t = Some i \<and> map_of id2token i = Some t)"
proof -
  define ws where "ws = sorted_list_of_set (unique_words corpus)"
  define ns where "ns = map int [0 ..< length ws]"
  have fin: "finite (unique_words corpus)" by (rule finite_unique_words)
  have sw: "set ws = unique_words corpus" and di: "distinct ws"
    using fin by (simp_all add: ws_def)
  have len: "length ns = length ws" by (simp add: ns_def)
  have dn: "distinct ns" by (simp add: ns_def distinct_map)
  have cv: "create_vocab corpus = (zip ws ns, zip ns ws)"
    by (simp add: create_vocab_closed Let_def ws_def ns_def)
  have k1: "map fst (zip ws ns) = ws" and k2: "map fst (zip ns ws) = ns"
    using len by simp_all
  have c1: "distinct (map fst (zip ws ns))" using di k1 by simp
  have c2: "distinct (map fst (zip ns ws))" using dn k2 by simp
  have c3: "fst ` set (zip ws ns) = unique_words corpus"
    using k1 sw by (metis set_map)
  have c4: "\<forall>t \<in> unique_words corpus.
      map_of (zip ws ns) t = Some (int (card {s \<in> unique_words corpus. s < t}))"
    using vocab_lookup_rank [OF fin] by (simp add: ws_def ns_def)
  have card: "card (unique_words corpus) = length ws"
    using distinct_card [OF di] sw by simp
  have c5: "bij_betw (\<lambda>t. the (map_of (zip ws ns) t)) (unique_words corpus)
      {0 ..< int (card (unique_words corpus))}"
    using vocab_ids_bij [OF di] by (simp add: ns_def card sw)
  have c6: "\<forall>t i. map_of (zip ns ws) i = Some t \<longleftrightarrow> map_of (zip ws ns) t = Some i"
  proof (intro allI)
    fix t i
    have "map_of (zip ns ws) i = Some t \<longleftrightarrow> (i, t) \<in> set (zip ns ws)"
      using c2 by (rule map_of_eq_Some_iff)
    also have "\<dots> \<longleftrightarrow> (t, i) \<in> set (zip ws ns)"
      by (rule zip_swap_mem)
    also have "\<dots> \<longleftrightarrow> map_of (zip ws ns) t = Some i"
      using c1 by (rule map_of_eq_Some_iff [symmetric])
    finally show "map_of (zip ns ws) i = Some t \<longleftrightarrow> map_of (zip ws ns) t = Some i" .
  qed
  have c7: "\<forall>t \<in> unique_words corpus.
      \<exists>i. map_of (zip ws ns) t = Some i \<and> map_of (zip ns ws) i = Some t"
    using c4 c6 by simp
  show ?thesis
    unfolding cv using c1 c2 c3 c4 c5 c6 c7 by simp
qed

theorem create_vocab_bijection_witness:
  "create_vocab [[''a'', ''b''], [''b'', ''c'']] =
     ([(''a'', 0), (''b'', 1), (''c'', 2)], [(0, ''a''), (1, ''b''), (2, ''c'')])
   \<and> ''b'' \<in> unique_words [[''a'', ''b''], [''b'', ''c'']]
   \<and> int (card {s \<in> unique_words [[''a'', ''b''], [''b'', ''c'']]. s < ''b''}) = 1
   \<and> bij_betw (\<lambda>t. the (map_of [(''a'', 0), (''b'', 1), (''c'', 2)] t))
         (unique_words [[''a'', ''b''], [''b'', ''c'']]) {0 ..< (3::int)}"
proof -
  let ?c = "[[''a'', ''b''], [''b'', ''c'']]"
  have so: "sorted_list_of_set (unique_words ?c) = [''a'', ''b'', ''c'']"
    by (simp add: unique_words_def sorted_list_of_set_sort_remdups)
  have cv: "create_vocab ?c =
     ([(''a'', 0), (''b'', 1), (''c'', 2)], [(0, ''a''), (1, ''b''), (2, ''c'')])"
    by (simp add: create_vocab_def so dict_len_def dict_items_def)
  have m: "''b'' \<in> unique_words ?c"
    by (simp add: unique_words_def)
  have cd: "card (unique_words ?c) = 3"
    by (simp add: unique_words_def)
  note main = create_vocab_bijection [of ?c, unfolded cv prod.case]
  have r: "map_of [(''a'', 0), (''b'', 1), (''c'', 2)] ''b'' =
        Some (int (card {s \<in> unique_words ?c. s < ''b''}))"
    using main m by blast
  have b: "bij_betw (\<lambda>t. the (map_of [(''a'', 0), (''b'', 1), (''c'', 2)] t))
         (unique_words ?c) {0 ..< int (card (unique_words ?c))}"
    using main by blast
  have r': "int (card {s \<in> unique_words ?c. s < ''b''}) = 1"
    using r by simp
  have b': "bij_betw (\<lambda>t. the (map_of [(''a'', 0), (''b'', 1), (''c'', 2)] t))
         (unique_words ?c) {0 ..< (3::int)}"
    using b by (simp only: cd) simp
  show ?thesis
    using cv m r' b' by (intro conjI)
qed

text \<open>
  Claim C5. The result depends on the corpus only through its set of distinct tokens:
  two corpora with the same distinct tokens get identical \<open>token2id\<close> and
  \<open>id2token\<close> (the same pairs in the same insertion order). In particular two corpora
  with the same documents in any order and multiplicity, a corpus and its reversal, and a
  corpus and its duplication give the same result.
\<close>

theorem create_vocab_deterministic:
  "(set (concat c1) = set (concat c2) \<longrightarrow> create_vocab c1 = create_vocab c2)
   \<and> (set c1 = set c2 \<longrightarrow> create_vocab c1 = create_vocab c2)
   \<and> create_vocab (rev c1) = create_vocab c1
   \<and> create_vocab (c1 @ c1) = create_vocab c1"
proof -
  have eq: "\<And>a b. set (concat a) = set (concat b) \<Longrightarrow> create_vocab a = create_vocab b"
    by (simp add: create_vocab_def unique_words_def)
  have "set c1 = set c2 \<Longrightarrow> set (concat c1) = set (concat c2)"
    by simp
  moreover have "set (concat (rev c1)) = set (concat c1)"
    by auto
  moreover have "set (concat (c1 @ c1)) = set (concat c1)"
    by auto
  ultimately show ?thesis
    using eq by blast
qed

theorem create_vocab_deterministic_witness:
  "set (concat [[''a'', ''b''], [''b'', ''c'']]) =
     set (concat [[''c'', ''b''], [''b'', ''a''], [''c'', ''b'']])
   \<and> create_vocab [[''a'', ''b''], [''b'', ''c'']] =
       create_vocab [[''c'', ''b''], [''b'', ''a''], [''c'', ''b'']]
   \<and> set [[''a'', ''b''], [''b'', ''c'']] = set [[''b'', ''c''], [''a'', ''b''], [''b'', ''c'']]
   \<and> create_vocab [[''a'', ''b''], [''b'', ''c'']] =
       create_vocab [[''b'', ''c''], [''a'', ''b''], [''b'', ''c'']]"
proof -
  let ?c1 = "[[''a'', ''b''], [''b'', ''c'']]"
  let ?c2 = "[[''c'', ''b''], [''b'', ''a''], [''c'', ''b'']]"
  let ?c3 = "[[''b'', ''c''], [''a'', ''b''], [''b'', ''c'']]"
  have h1: "set (concat ?c1) = set (concat ?c2)"
    by auto
  have h2: "set ?c1 = set ?c3"
    by auto
  have r1: "create_vocab ?c1 = create_vocab ?c2"
    by (rule create_vocab_deterministic [of ?c1 ?c2, THEN conjunct1, THEN mp, OF h1])
  have r2: "create_vocab ?c1 = create_vocab ?c3"
    by (rule create_vocab_deterministic [of ?c1 ?c3, THEN conjunct2, THEN conjunct1, THEN mp, OF h2])
  show ?thesis
    using h1 r1 h2 r2 by (intro conjI)
qed

text \<open>
  Claim C7. Appending lists, building a set of strings, sorting strings, storing into a
  dictionary and taking its length are defined on every value of their types, so the
  model of \<open>create_vocab\<close> has no error branch and yields a pair of dictionaries for
  every corpus, each with one entry per distinct token. The empty corpus gives two empty
  dictionaries, and empty documents contribute nothing.
\<close>

theorem create_vocab_total:
  "create_vocab [] = ([], [])
   \<and> create_vocab (replicate n []) = ([], [])
   \<and> create_vocab ([] # corpus) = create_vocab corpus
   \<and> (\<exists>token2id id2token. create_vocab corpus = (token2id, id2token)
        \<and> length token2id = card (unique_words corpus)
        \<and> length id2token = card (unique_words corpus))"
proof -
  have e: "create_vocab [] = ([], [])"
    by (simp add: create_vocab_def unique_words_def dict_items_def)
  have "unique_words (replicate n []) = {}"
    by (auto simp: unique_words_def)
  then have r: "create_vocab (replicate n []) = ([], [])"
    by (simp add: create_vocab_def dict_items_def)
  have c: "create_vocab ([] # corpus) = create_vocab corpus"
    by (simp add: create_vocab_def unique_words_def)
  define ws where "ws = sorted_list_of_set (unique_words corpus)"
  have "length ws = card (unique_words corpus)"
    by (simp add: ws_def finite_unique_words)
  then have l: "\<exists>token2id id2token. create_vocab corpus = (token2id, id2token)
        \<and> length token2id = card (unique_words corpus)
        \<and> length id2token = card (unique_words corpus)"
    by (simp add: create_vocab_closed Let_def ws_def)
  show ?thesis
    using e r c l by blast
qed

section \<open>Properties of get_token_stream\<close>

lemma kept_strings:
  "[tok_string token. token \<leftarrow> toks, tok_type token \<notin> useless_token_type] =
   map tok_string (filter (\<lambda>t. tok_type t \<notin> useless_token_type) toks)"
  by (induction toks) simp_all

lemma get_token_stream_python:
  assumes "ast_parse code = Inr parse_tree" and "tokenize_tokenize code = Inr origin_tokens"
  shows "get_token_stream ast_parse tokenize_tokenize code ''python'' =
         Inr (map tok_string (filter (\<lambda>t. tok_type t \<notin> useless_token_type) origin_tokens))"
  using assms by (simp add: get_token_stream_def kept_strings)

lemma get_token_stream_Inr:
  assumes "get_token_stream ast_parse tokenize_tokenize code language = Inr out"
  shows "\<exists>toks. tokenize_tokenize code = Inr toks \<and>
           out = map tok_string (filter (\<lambda>t. tok_type t \<notin> useless_token_type) toks)"
  using assms
  by (auto simp: get_token_stream_def kept_strings split: if_splits sum.splits)

lemma last_filter_keeps:
  "xs \<noteq> [] \<Longrightarrow> P (last xs) \<Longrightarrow> filter P xs \<noteq> [] \<and> last (filter P xs) = last xs"
proof -
  assume ne: "xs \<noteq> []" and p: "P (last xs)"
  have "xs = butlast xs @ [last xs]" using ne by simp
  then have "filter P xs = filter P (butlast xs) @ [last xs]"
    using p by (metis filter.simps(1,2) filter_append)
  then show ?thesis by simp
qed

lemma scenario_parse_ok: "scenario_parse scenario_code = Inr ()"
  by (simp add: scenario_parse_def)

lemma scenario_tokenize_ok: "scenario_tokenize scenario_code = Inr scenario_tokens"
  by (simp add: scenario_tokenize_def)

text \<open>
  Claim C4. With any language argument other than \<open>python\<close> the call fails with the
  assertion's error, whatever the code argument is and whatever the parser and the
  tokenizer would do with it: the result does not depend on them, the assertion being
  the first statement. (The model takes assertions as enabled, the interpreter's default.)
\<close>

theorem get_token_stream_unsupported_language:
  "language \<noteq> ''python'' \<Longrightarrow>
   get_token_stream ast_parse tokenize_tokenize code language =
     Inl (AssertionError ''Only support python for now'')"
  by (simp add: get_token_stream_def)

theorem get_token_stream_unsupported_language_witness:
  "''java'' \<noteq> ''python''
   \<and> scenario_parse scenario_code = Inr ()
   \<and> get_token_stream scenario_parse scenario_tokenize scenario_code ''java'' =
       Inl (AssertionError ''Only support python for now'')
   \<and> get_token_stream scenario_parse scenario_tokenize ''def f(:'' ''java'' =
       Inl (AssertionError ''Only support python for now'')"
proof -
  have h: "''java'' \<noteq> ''python''" by simp
  have p: "scenario_parse scenario_code = Inr ()" by (simp add: scenario_parse_def)
  show ?thesis
    using h p
      get_token_stream_unsupported_language [OF h, of scenario_parse scenario_tokenize scenario_code]
      get_token_stream_unsupported_language [OF h, of scenario_parse scenario_tokenize "''def f(:''"]
    by (intro conjI)
qed

text \<open>
  Claim C3. When the parser rejects the text, the call fails with the parser's error and
  returns no token list, whatever the tokenizer would yield for that text: the parse comes
  before the tokenizer is run. For a text that is not valid Python the parser's error is
  \<open>SyntaxError\<close>.
\<close>

theorem get_token_stream_syntax_error:
  "ast_parse code = Inl e \<Longrightarrow>
   get_token_stream ast_parse tokenize_tokenize code ''python'' = Inl e"
  by (simp add: get_token_stream_def)

theorem get_token_stream_syntax_error_witness:
  "scenario_parse ''def f(:'' = Inl SyntaxError
   \<and> get_token_stream scenario_parse (\<lambda>code. Inr scenario_tokens) ''def f(:'' ''python'' =
       Inl SyntaxError"
proof -
  have h: "scenario_parse ''def f(:'' = Inl SyntaxError"
    by (simp add: scenario_parse_def scenario_code_def)
  show ?thesis
    using h get_token_stream_syntax_error
        [of scenario_parse "''def f(:''" SyntaxError "\<lambda>code. Inr scenario_tokens", OF h]
    by (intro conjI)
qed

text \<open>
  Claim C2. For a text that parses and tokenizes, the result is the list of the literal
  texts of the kept tokens, where no kept token has the category comment, newline,
  non-terminating newline, indent, dedent, encoding or string, and for every other
  category the kept tokens of that category are exactly the tokens of that category in
  the tokenizer's stream.
\<close>

theorem get_token_stream_filters:
  assumes "ast_parse code = Inr parse_tree" and "tokenize_tokenize code = Inr origin_tokens"
  shows "\<exists>kept. get_token_stream ast_parse tokenize_tokenize code ''python'' =
            Inr (map tok_string kept)
     \<and> (\<forall>ty \<in> {COMMENT, NEWLINE, NL, INDENT, DEDENT, ENCODING, STRING}.
           filter (\<lambda>t. tok_type t = ty) kept = [])
     \<and> (\<forall>ty. ty \<notin> {COMMENT, NEWLINE, NL, INDENT, DEDENT, ENCODING, STRING} \<longrightarrow>
           filter (\<lambda>t. tok_type t = ty) kept = filter (\<lambda>t. tok_type t = ty) origin_tokens)"
proof -
  let ?D = "{COMMENT, NEWLINE, NL, INDENT, DEDENT, ENCODING, STRING}"
  let ?kept = "filter (\<lambda>t. tok_type t \<notin> useless_token_type) origin_tokens"
  have u: "useless_token_type = ?D" by (simp add: useless_token_type_def)
  have r: "get_token_stream ast_parse tokenize_tokenize code ''python'' =
           Inr (map tok_string ?kept)"
    using assms by (rule get_token_stream_python)
  have d: "\<forall>ty \<in> ?D. filter (\<lambda>t. tok_type t = ty) ?kept = []"
    unfolding u by (auto simp: filter_empty_conv)
  have k: "\<forall>ty. ty \<notin> ?D \<longrightarrow>
      filter (\<lambda>t. tok_type t = ty) ?kept = filter (\<lambda>t. tok_type t = ty) origin_tokens"
  proof (intro allI impI)
    fix ty assume "ty \<notin> ?D"
    then have e: "\<And>t. (tok_type t \<notin> ?D \<and> tok_type t = ty) = (tok_type t = ty)" by blast
    show "filter (\<lambda>t. tok_type t = ty) ?kept = filter (\<lambda>t. tok_type t = ty) origin_tokens"
      unfolding u by (simp only: filter_filter e)
  qed
  show ?thesis
    using r d k by blast
qed

theorem get_token_stream_filters_witness:
  "scenario_parse scenario_code = Inr ()
   \<and> scenario_tokenize scenario_code = Inr scenario_tokens
   \<and> (\<exists>kept. get_token_stream scenario_parse scenario_tokenize scenario_code ''python'' =
            Inr (map tok_string kept)
     \<and> (\<forall>ty \<in> {COMMENT, NEWLINE, NL, INDENT, DEDENT, ENCODING, STRING}.
           filter (\<lambda>t. tok_type t = ty) kept = [])
     \<and> (\<forall>ty. ty \<notin> {COMMENT, NEWLINE, NL, INDENT, DEDENT, ENCODING, STRING} \<longrightarrow>
           filter (\<lambda>t. tok_type t = ty) kept = filter (\<lambda>t. tok_type t = ty) scenario_tokens))"
  using scenario_parse_ok scenario_tokenize_ok
    get_token_stream_filters
      [of scenario_parse scenario_code "()" scenario_tokenize scenario_tokens,
      OF scenario_parse_ok scenario_tokenize_ok]
  by (intro conjI)

text \<open>
  Claim C6. For a text that parses and tokenizes, the kept tokens are a subsequence of the
  tokenizer's stream: filtering removes tokens and never reorders them. Hence, the
  stream being in source order (start positions ascending), the kept tokens are in source
  order too.
\<close>

theorem get_token_stream_order:
  assumes "ast_parse code = Inr parse_tree" and "tokenize_tokenize code = Inr origin_tokens"
  shows "\<exists>kept. get_token_stream ast_parse tokenize_tokenize code ''python'' =
            Inr (map tok_string kept)
     \<and> subseq kept origin_tokens
     \<and> (sorted_wrt (\<lambda>a b. pos_le (tok_start a) (tok_start b)) origin_tokens \<longrightarrow>
          sorted_wrt (\<lambda>a b. pos_le (tok_start a) (tok_start b)) kept)"
proof -
  let ?kept = "filter (\<lambda>t. tok_type t \<notin> useless_token_type) origin_tokens"
  have r: "get_token_stream ast_parse tokenize_tokenize code ''python'' =
           Inr (map tok_string ?kept)"
    using assms by (rule get_token_stream_python)
  have s: "subseq ?kept origin_tokens" by simp
  have o: "sorted_wrt (\<lambda>a b. pos_le (tok_start a) (tok_start b)) origin_tokens \<longrightarrow>
          sorted_wrt (\<lambda>a b. pos_le (tok_start a) (tok_start b)) ?kept"
    by (simp add: sorted_wrt_filter)
  show ?thesis
    using r s o by blast
qed

theorem get_token_stream_order_witness:
  "scenario_parse scenario_code = Inr ()
   \<and> scenario_tokenize scenario_code = Inr scenario_tokens
   \<and> sorted_wrt (\<lambda>a b. pos_le (tok_start a) (tok_start b)) scenario_tokens
   \<and> (\<exists>kept. get_token_stream scenario_parse scenario_tokenize scenario_code ''python'' =
            Inr (map tok_string kept)
     \<and> subseq kept scenario_tokens
     \<and> sorted_wrt (\<lambda>a b. pos_le (tok_start a) (tok_start b)) kept)"
proof -
  have so: "sorted_wrt (\<lambda>a b. pos_le (tok_start a) (tok_start b)) scenario_tokens"
    by (simp add: scenario_tokens_def TokenInfo_def pos_le_def)
  have "\<exists>kept. get_token_stream scenario_parse scenario_tokenize scenario_code ''python'' =
            Inr (map tok_string kept)
     \<and> subseq kept scenario_tokens
     \<and> sorted_wrt (\<lambda>a b. pos_le (tok_start a) (tok_start b)) kept"
    using get_token_stream_order
      [of scenario_parse scenario_code "()" scenario_tokenize scenario_tokens,
      OF scenario_parse_ok scenario_tokenize_ok] so by blast
  then show ?thesis
    using scenario_parse_ok scenario_tokenize_ok so by (intro conjI)
qed

text \<open>
  Claim C8. The scenario: for the text \<open>def f(x):\<close>, newline, \<open>    return x\<close>, which
  the parser accepts and for which the tokenizer yields \<open>scenario_tokens\<close>, the call
  with language \<open>python\<close> returns exactly \<open>def f ( x ) : return x\<close> followed by the
  empty text of the end-marker; the encoding, newline, indent and dedent tokens are gone.
\<close>

theorem get_token_stream_scenario:
  assumes "ast_parse scenario_code = Inr parse_tree"
    and "tokenize_tokenize scenario_code = Inr scenario_tokens"
  shows "scenario_code = ''def f(x):\<newline>    return x'' \<and>
     get_token_stream ast_parse tokenize_tokenize scenario_code ''python'' =
       Inr [''def'', ''f'', ''('', ''x'', '')'', '':'', ''return'', ''x'', '''']"
proof -
  have "map tok_string (filter (\<lambda>t. tok_type t \<notin> useless_token_type) scenario_tokens) =
        [''def'', ''f'', ''('', ''x'', '')'', '':'', ''return'', ''x'', '''']"
    by (simp add: scenario_tokens_def TokenInfo_def useless_token_type_def)
  then show ?thesis
    using get_token_stream_python
        [of ast_parse scenario_code parse_tree tokenize_tokenize scenario_tokens, OF assms]
    by (simp add: scenario_code_def)
qed

theorem get_token_stream_scenario_witness:
  "scenario_parse scenario_code = Inr ()
   \<and> scenario_tokenize scenario_code = Inr scenario_tokens
   \<and> get_token_stream scenario_parse scenario_tokenize ''def f(x):\<newline>    return x'' ''python'' =
       Inr [''def'', ''f'', ''('', ''x'', '')'', '':'', ''return'', ''x'', '''']"
proof -
  have "scenario_code = ''def f(x):\<newline>    return x'' \<and>
     get_token_stream scenario_parse scenario_tokenize scenario_code ''python'' =
       Inr [''def'', ''f'', ''('', ''x'', '')'', '':'', ''return'', ''x'', '''']"
    by (rule get_token_stream_scenario
      [of scenario_parse "()" scenario_tokenize, OF scenario_parse_ok scenario_tokenize_ok])
  then have "get_token_stream scenario_parse scenario_tokenize ''def f(x):\<newline>    return x'' ''python'' =
       Inr [''def'', ''f'', ''('', ''x'', '')'', '':'', ''return'', ''x'', '''']"
    by metis
  then show ?thesis
    using scenario_parse_ok scenario_tokenize_ok by (intro conjI)
qed

text \<open>
  Claim C10. Whenever the call returns a list, the list is not empty and its last element
  is the empty string, given that the tokenizer ends every stream it completes with the
  end-marker, whose text is empty: the end-marker is not a discarded category.
\<close>

theorem get_token_stream_ends_with_endmarker:
  assumes "get_token_stream ast_parse tokenize_tokenize code language = Inr out"
    and "\<forall>toks. tokenize_tokenize code = Inr toks \<longrightarrow>
           toks \<noteq> [] \<and> tok_type (last toks) = ENDMARKER \<and> tok_string (last toks) = []"
  shows "out \<noteq> [] \<and> last out = []"
proof -
  obtain toks where t: "tokenize_tokenize code = Inr toks"
    and o: "out = map tok_string (filter (\<lambda>t. tok_type t \<notin> useless_token_type) toks)"
    using get_token_stream_Inr [OF assms(1)] by blast
  have ne: "toks \<noteq> []" and ty: "tok_type (last toks) = ENDMARKER"
    and st: "tok_string (last toks) = []"
    using assms(2) t by simp_all
  have "tok_type (last toks) \<notin> useless_token_type"
    by (simp add: ty useless_token_type_def)
  then have "filter (\<lambda>t. tok_type t \<notin> useless_token_type) toks \<noteq> [] \<and>
      last (filter (\<lambda>t. tok_type t \<notin> useless_token_type) toks) = last toks"
    using ne by (intro last_filter_keeps)
  then show ?thesis
    using o st by (simp add: last_map)
qed

theorem get_token_stream_ends_with_endmarker_witness:
  "get_token_stream scenario_parse scenario_tokenize scenario_code ''python'' =
     Inr [''def'', ''f'', ''('', ''x'', '')'', '':'', ''return'', ''x'', '''']
   \<and> scenario_tokenize scenario_code = Inr scenario_tokens
   \<and> scenario_tokens \<noteq> []
   \<and> tok_type (last scenario_tokens) = ENDMARKER
   \<and> tok_string (last scenario_tokens) = []
   \<and> [''def'', ''f'', ''('', ''x'', '')'', '':'', ''return'', ''x'', ''''] \<noteq> []
   \<and> last [''def'', ''f'', ''('', ''x'', '')'', '':'', ''return'', ''x'', ''''] = []"
proof -
  have r: "get_token_stream scenario_parse scenario_tokenize scenario_code ''python'' =
     Inr [''def'', ''f'', ''('', ''x'', '')'', '':'', ''return'', ''x'', '''']"
    by (simp add: get_token_stream_def scenario_parse_def scenario_tokenize_def
        scenario_tokens_def TokenInfo_def useless_token_type_def)
  have l: "\<forall>toks. scenario_tokenize scenario_code = Inr toks \<longrightarrow>
           toks \<noteq> [] \<and> tok_type (last toks) = ENDMARKER \<and> tok_string (last toks) = []"
    by (simp add: scenario_tokenize_def scenario_tokens_def TokenInfo_def)
  have e: "scenario_tokens \<noteq> []" "tok_type (last scenario_tokens) = ENDMARKER"
      "tok_string (last scenario_tokens) = []"
    using l scenario_tokenize_ok by simp_all
  show ?thesis
    using r scenario_tokenize_ok e get_token_stream_ends_with_endmarker [OF r l]
    by (intro conjI) blast+
qed

section \<open>Properties of get_code\<close>

lemma column_total:
  "\<forall>r \<in> set rs. \<exists>v. r name = Some v \<Longrightarrow>
   \<exists>out. column rs name = Inr out \<and> length out = length rs
     \<and> (\<forall>i < length rs. (rs ! i) name = Some (out ! i))"
proof (induction rs)
  case Nil
  then show ?case by simp
next
  case (Cons r rs)
  obtain v where v: "r name = Some v" using Cons.prems by auto
  obtain out where out: "column rs name = Inr out" "length out = length rs"
      "\<forall>i < length rs. (rs ! i) name = Some (out ! i)"
    using Cons.IH Cons.prems by auto
  have "column (r # rs) name = Inr (v # out)" using v out(1) by simp
  moreover have "length (v # out) = length (r # rs)" using out(2) by simp
  moreover have "\<forall>i < length (r # rs). ((r # rs) ! i) name = Some ((v # out) ! i)"
    using v out(3) by (auto simp: nth_Cons split: nat.splits)
  ultimately show ?case by blast
qed

text \<open>
  Claim C9. When the dataset source yields a dictionary of splits for the language and
  the partition is one of its splits, \<open>get_code\<close> returns the \<open>whole_func_string\<close>
  values of the records of that split: as many values as records, the \<open>i\<close>-th value
  from the \<open>i\<close>-th record. An error of the dataset source reaches the caller unchanged,
  and a partition that the dictionary does not have is the dictionary's \<open>KeyError\<close>.
\<close>

theorem get_code_column:
  "(load_dataset ''code_search_net'' language = Inr raw_datasets
      \<and> raw_datasets partition' = Some split
      \<and> (\<forall>r \<in> set split. \<exists>v. r ''whole_func_string'' = Some v)
    \<longrightarrow> (\<exists>out. get_code load_dataset partition' language = Inr out
          \<and> length out = length split
          \<and> (\<forall>i < length split. (split ! i) ''whole_func_string'' = Some (out ! i))))
   \<and> (load_dataset ''code_search_net'' language = Inl e
    \<longrightarrow> get_code load_dataset partition' language = Inl e)
   \<and> (load_dataset ''code_search_net'' language = Inr raw_datasets
      \<and> raw_datasets partition' = None
    \<longrightarrow> get_code load_dataset partition' language = Inl (KeyError partition'))"
proof (intro conjI impI)
  assume a: "load_dataset ''code_search_net'' language = Inr raw_datasets
      \<and> raw_datasets partition' = Some split
      \<and> (\<forall>r \<in> set split. \<exists>v. r ''whole_func_string'' = Some v)"
  then have "get_code load_dataset partition' language = column split ''whole_func_string''"
    by (simp add: get_code_def)
  moreover have "\<exists>out. column split ''whole_func_string'' = Inr out
      \<and> length out = length split
      \<and> (\<forall>i < length split. (split ! i) ''whole_func_string'' = Some (out ! i))"
    using a by (intro column_total) simp
  ultimately show "\<exists>out. get_code load_dataset partition' language = Inr out
          \<and> length out = length split
          \<and> (\<forall>i < length split. (split ! i) ''whole_func_string'' = Some (out ! i))"
    by simp
next
  assume "load_dataset ''code_search_net'' language = Inl e"
  then show "get_code load_dataset partition' language = Inl e"
    by (simp add: get_code_def)
next
  assume "load_dataset ''code_search_net'' language = Inr raw_datasets
      \<and> raw_datasets partition' = None"
  then show "get_code load_dataset partition' language = Inl (KeyError partition')"
    by (simp add: get_code_def)
qed

theorem get_code_column_witness:
  "example_load_dataset ''code_search_net'' ''python'' = Inr [''train'' \<mapsto> example_split]
   \<and> [''train'' \<mapsto> example_split] ''train'' = Some example_split
   \<and> map (\<lambda>r. r ''whole_func_string'') example_split =
       [Some ''def f(): pass'', Some ''def g(): return 1'']
   \<and> (\<exists>out. get_code example_load_dataset ''train'' ''python'' = Inr out
        \<and> length out = length example_split
        \<and> (\<forall>i < length example_split.
              (example_split ! i) ''whole_func_string'' = Some (out ! i)))
   \<and> get_code example_load_dataset ''train'' ''python'' =
       Inr [''def f(): pass'', ''def g(): return 1'']
   \<and> example_load_dataset ''code_search_net'' ''go'' =
       Inl (LibraryError ''dataset or configuration not found'')
   \<and> get_code example_load_dataset ''train'' ''go'' =
       Inl (LibraryError ''dataset or configuration not found'')
   \<and> [''train'' \<mapsto> example_split] ''test'' = None
   \<and> get_code example_load_dataset ''test'' ''python'' = Inl (KeyError ''test'')"
proof -
  let ?dd = "[''train'' \<mapsto> example_split]"
  have l: "example_load_dataset ''code_search_net'' ''python'' = Inr ?dd"
    by (simp add: example_load_dataset_def)
  have p: "?dd ''train'' = Some example_split"
    by simp
  have f: "\<forall>r \<in> set example_split. \<exists>v. r ''whole_func_string'' = Some v"
    by (simp add: example_split_def)
  have g: "example_load_dataset ''code_search_net'' ''go'' =
       Inl (LibraryError ''dataset or configuration not found'')"
    by (simp add: example_load_dataset_def)
  have n: "?dd ''test'' = None"
    by simp
  have v: "get_code example_load_dataset ''train'' ''python'' =
       Inr [''def f(): pass'', ''def g(): return 1'']"
    by (simp add: get_code_def example_load_dataset_def example_split_def)
  note t1 = get_code_column
      [of example_load_dataset "''python''" ?dd "''train''" example_split, THEN conjunct1]
  note t2 = get_code_column
      [of example_load_dataset "''go''" _ _ _ "LibraryError ''dataset or configuration not found''",
        THEN conjunct2, THEN conjunct1]
  note t3 = get_code_column
      [of example_load_dataset "''python''" ?dd "''test''", THEN conjunct2, THEN conjunct2]
  have r1: "\<exists>out. get_code example_load_dataset ''train'' ''python'' = Inr out
        \<and> length out = length example_split
        \<and> (\<forall>i < length example_split.
              (example_split ! i) ''whole_func_string'' = Some (out ! i))"
    using t1 l p f by blast
  have r2: "get_code example_load_dataset ''train'' ''go'' =
       Inl (LibraryError ''dataset or configuration not found'')"
    using t2 [of "''train''"] g by blast
  have r3: "get_code example_load_dataset ''test'' ''python'' = Inl (KeyError ''test'')"
    using t3 l n by blast
  have f': "map (\<lambda>r. r ''whole_func_string'') example_split =
       [Some ''def f(): pass'', Some ''def g(): return 1'']"
    by (simp add: example_split_def)
  show ?thesis
    using l p f' r1 v g r2 n r3 by (intro conjI)
qed

end
